theory Spec2Isabelle
  imports Main "HOL-Library.AList"
begin

section \<open>Strings and values\<close>

text \<open>
  The module \<^verbatim>\<open>framework/utils/xmlUtils.py\<close> is Python 2 code (\<^verbatim>\<open>basestring\<close>,
  \<^verbatim>\<open>unichr\<close>) with \<^verbatim>\<open>unicode_literals\<close>. A string is modelled as the list of its
  code points, so that \<^verbatim>\<open>U+D800\<close> or \<^verbatim>\<open>U+FFFE\<close> is one element and \<open>length\<close> is
  Python's \<^verbatim>\<open>len\<close>.
\<close>

type_synonym ustring = "nat list"

definition ustr :: "string \<Rightarrow> ustring" where
  "ustr s = map of_char s"

text \<open>
  The values a parameter of these utilities can hold: a string, or something that is not
  a \<^verbatim>\<open>basestring\<close>. \<open>FuncV\<close> is a function object (ElementTree uses the function
  \<^verbatim>\<open>Comment\<close> as the tag of a comment node).
\<close>

datatype pyval = Str ustring | NoneV | IntV int | FuncV ustring

datatype error = IndexError | UnicodeEncodeError | SyntaxError

section \<open>The regular expressions of the module\<close>

text \<open>
  The fragment of Python's \<^verbatim>\<open>re\<close> syntax that the module uses: a character class
  \<^verbatim>\<open>[...]\<close> given by its ranges, a negated class \<^verbatim>\<open>[^...]\<close>, the anchors
  \<^verbatim>\<open>^\<close> and \<^verbatim>\<open>$\<close>, concatenation, alternation and the greedy \<^verbatim>\<open>+\<close>.
  Parentheses only capture; no pattern of the module refers to a group, so they are left out.
\<close>

datatype rx = In "(nat \<times> nat) list" | NotIn "(nat \<times> nat) list"
  | Bol | Eol | Seq rx rx | Alt rx rx | Plus rx

definition in_ranges :: "(nat \<times> nat) list \<Rightarrow> nat \<Rightarrow> bool" where
  "in_ranges rs c = list_ex (\<lambda>r. fst r \<le> c \<and> c \<le> snd r) rs"

text \<open>
  \<open>rx_m p bos s\<close>: the backtracking matcher started on the rest \<open>s\<close> of the subject;
  \<open>bos\<close> says that \<open>s\<close> is the whole subject (the position is 0). The result lists the
  lengths of all matches in the order the engine tries them, so its head is the match
  \<^verbatim>\<open>re\<close> reports. Without \<^verbatim>\<open>re.MULTILINE\<close>, \<^verbatim>\<open>^\<close> matches at position 0 only
  and \<^verbatim>\<open>$\<close> matches at the end of the subject and just before a newline that ends it.
\<close>

function rx_m :: "rx \<Rightarrow> bool \<Rightarrow> ustring \<Rightarrow> nat list" where
  "rx_m (In rs) bos s = (case s of [] \<Rightarrow> [] | c # _ \<Rightarrow> if in_ranges rs c then [1] else [])"
| "rx_m (NotIn rs) bos s = (case s of [] \<Rightarrow> [] | c # _ \<Rightarrow> if in_ranges rs c then [] else [1])"
| "rx_m Bol bos s = (if bos then [0] else [])"
| "rx_m Eol bos s = (if s = [] \<or> s = [10] then [0] else [])"
| "rx_m (Seq a b) bos s =
     concat (map (\<lambda>n. map (\<lambda>m. n + m) (rx_m b (bos \<and> n = 0) (drop n s))) (rx_m a bos s))"
| "rx_m (Alt a b) bos s = rx_m a bos s @ rx_m b bos s"
| "rx_m (Plus a) bos s =
     concat (map (\<lambda>n. if 0 < n \<and> n \<le> length s
                       then map (\<lambda>m. n + m) (rx_m (Plus a) False (drop n s)) @ [n]
                       else [n])
                 (rx_m a bos s))"
  by pat_completeness auto
termination
  by (relation "inv_image (less_than <*lex*> less_than) (\<lambda>(p, bos, s). (length s, size p))")
     auto

text \<open>\<^verbatim>\<open>bool(re.match(p, s))\<close>: a match at position 0.\<close>

definition re_match :: "rx \<Rightarrow> ustring \<Rightarrow> bool" where
  "re_match p s = (rx_m p True s \<noteq> [])"

text \<open>
  \<^verbatim>\<open>re.sub(p, repl, s)\<close> for a replacement without group references: scan from the
  left, replace the match found at the current position and go on behind it, copy the
  character otherwise. No pattern of the module matches the empty string; for such a match
  the replacement is inserted and the scan moves on by one character.
\<close>

fun re_sub_from :: "rx \<Rightarrow> ustring \<Rightarrow> bool \<Rightarrow> ustring \<Rightarrow> ustring" where
  "re_sub_from p repl bos [] = (if rx_m p bos [] = [] then [] else repl)"
| "re_sub_from p repl bos (c # cs) =
     (case rx_m p bos (c # cs) of
        [] \<Rightarrow> c # re_sub_from p repl False cs
      | 0 # _ \<Rightarrow> repl @ c # re_sub_from p repl False cs
      | Suc n # _ \<Rightarrow> repl @ re_sub_from p repl False (drop n cs))"

definition re_sub :: "rx \<Rightarrow> ustring \<Rightarrow> ustring \<Rightarrow> ustring" where
  "re_sub p repl s = re_sub_from p repl True s"

text \<open>The high and the low surrogates, \<^verbatim>\<open>unichr(0xd800)-unichr(0xdbff)\<close> and
  \<^verbatim>\<open>unichr(0xdc00)-unichr(0xdfff)\<close>.\<close>

definition hiSurr :: "(nat \<times> nat) list" where
  "hiSurr = [(0xD800, 0xDBFF)]"

definition loSurr :: "(nat \<times> nat) list" where
  "loSurr = [(0xDC00, 0xDFFF)]"

text \<open>The class of the first alternative: U+0000 to U+0008, U+000B to U+000C, U+000E to
  U+001F, and U+FFFE to U+FFFF.\<close>

definition illegalChars :: "(nat \<times> nat) list" where
  "illegalChars = [(0x0, 0x8), (0xB, 0xC), (0xE, 0x1F), (0xFFFE, 0xFFFF)]"

text \<open>
  \<^verbatim>\<open>RE_XML_ILLEGAL\<close>: the class above, or \<^verbatim>\<open>[hi][^lo]\<close>, or \<^verbatim>\<open>[^hi][lo]\<close>, or
  \<^verbatim>\<open>[hi]$\<close>, or \<^verbatim>\<open>^[lo]\<close>, in this order.
\<close>

definition RE_XML_ILLEGAL :: rx where
  "RE_XML_ILLEGAL =
     Alt (In illegalChars)
    (Alt (Seq (In hiSurr) (NotIn loSurr))
    (Alt (Seq (NotIn hiSurr) (In loSurr))
    (Alt (Seq (In hiSurr) Eol)
         (Seq Bol (In loSurr)))))"

text \<open>\<^verbatim>\<open>a-zA-Z0-9-_.\<close> inside brackets: three ranges and the literals
  hyphen, underscore and period.\<close>

definition tagChars :: "(nat \<times> nat) list" where
  "tagChars = [(0x61, 0x7A), (0x41, 0x5A), (0x30, 0x39), (0x2D, 0x2D), (0x5F, 0x5F), (0x2E, 0x2E)]"

text \<open>\<^verbatim>\<open>letters+u'|([_])'\<close>, that is \<^verbatim>\<open>([a-zA-Z])|([_])\<close>\<close>

definition lettersOrUnderscore :: rx where
  "lettersOrUnderscore = Alt (In [(0x61, 0x7A), (0x41, 0x5A)]) (In [(0x5F, 0x5F)])"

text \<open>\<^verbatim>\<open>notAllTagChars = '(^[a-zA-Z0-9-_.]+$)'\<close>\<close>

definition notAllTagChars :: rx where
  "notAllTagChars = Seq Bol (Seq (Plus (In tagChars)) Eol)"

text \<open>\<^verbatim>\<open>notTagChars = '([^a-zA-Z0-9-_.])'\<close>\<close>

definition notTagChars :: rx where
  "notTagChars = NotIn tagChars"

text \<open>\<^verbatim>\<open>u'([xX][mM][lL])'\<close>\<close>

definition xmlPrefix :: rx where
  "xmlPrefix = Seq (In [(0x78, 0x78), (0x58, 0x58)])
              (Seq (In [(0x6D, 0x6D), (0x4D, 0x4D)]) (In [(0x6C, 0x6C), (0x4C, 0x4C)]))"

section \<open>fixXmlText and fixXmlTag\<close>

text \<open>
  \<^verbatim>\<open>fixXmlText\<close>: a value that is not a string is passed back; in a string every match
  of \<^verbatim>\<open>RE_XML_ILLEGAL\<close> is replaced by \<^verbatim>\<open>"?"\<close>.
\<close>

definition fixXmlText :: "pyval \<Rightarrow> pyval" where
  "fixXmlText msg =
     (case msg of
        Str s \<Rightarrow> Str (re_sub RE_XML_ILLEGAL (ustr ''?'') s)
      | _ \<Rightarrow> msg)"

text \<open>The two notices of \<^verbatim>\<open>fixXmlTag\<close>; \<^verbatim>\<open>print(a, b)\<close> writes \<^verbatim>\<open>a\<close>, a blank and
  \<^verbatim>\<open>b\<close>.\<close>

definition noticeReplacing :: "ustring \<Rightarrow> ustring \<Rightarrow> ustring" where
  "noticeReplacing pre msg =
     ustr ''XML UTILS: Replacing illegal tag characters in \"'' @ pre @ ustr ''\":'' @ ustr '' '' @ msg"

definition noticePrepending :: "ustring \<Rightarrow> ustring" where
  "noticePrepending msg = ustr ''XML UTILS: Prepending \"_\" to illegal tag \"'' @ msg @ ustr ''\"''"

text \<open>
  \<^verbatim>\<open>fixXmlTag\<close> returns what it printed (one entry for each \<^verbatim>\<open>print\<close>) and its
  outcome: the value returned, or the exception raised. \<^verbatim>\<open>msg[0]\<close> raises
  \<^verbatim>\<open>IndexError\<close> on the empty string; \<^verbatim>\<open>msg[:3]\<close> is \<open>take 3\<close>. Writing to the
  standard output is taken to succeed.
\<close>

definition fixXmlTag :: "pyval \<Rightarrow> ustring list \<times> (error + pyval)" where
  "fixXmlTag msg =
     (case msg of
        Str s \<Rightarrow>
          (let (out, m) =
                 (if \<not> re_match notAllTagChars s
                  then (let m' = re_sub notTagChars (ustr ''.'') s
                        in ([noticeReplacing s m'], m'))
                  else ([], s))
           in (case m of
                 [] \<Rightarrow> (out, Inl IndexError)
               | c # _ \<Rightarrow>
                   if \<not> re_match lettersOrUnderscore [c] \<or> re_match xmlPrefix (take 3 m)
                   then (out @ [noticePrepending m], Inr (Str (ustr ''_'' @ m)))
                   else (out, Inr (Str m))))
      | _ \<Rightarrow> ([], Inr msg))"

section \<open>Element trees\<close>

text \<open>
  An \<^verbatim>\<open>xml.etree.ElementTree.Element\<close>: its tag, its attribute dictionary (the items
  in the order of the dictionary), its \<^verbatim>\<open>text\<close> and \<^verbatim>\<open>tail\<close> (a string or
  \<^verbatim>\<open>None\<close>) and its children in document order. A tree is a value here: no element
  object occurs twice in it, so an assignment to a field of a node changes that node only.
\<close>

datatype element = Element (el_tag: pyval) (el_attrib: "(pyval \<times> pyval) list")
  (el_text: "ustring option") (el_tail: "ustring option") (el_children: "element list")

datatype elementTree = ElementTree (getroot: element)

text \<open>\<^verbatim>\<open>isComment\<close>: the type of the tag is named \<^verbatim>\<open>function\<close>.\<close>

definition isComment :: "element \<Rightarrow> bool" where
  "isComment node = (case el_tag node of FuncV _ \<Rightarrow> True | _ \<Rightarrow> False)"

subsection \<open>newNode and newTree\<close>

text \<open>
  \<^verbatim>\<open>str(x)\<close> of a unicode string in Python 2 encodes it as ASCII and raises
  \<^verbatim>\<open>UnicodeEncodeError\<close> on a code point above 127.
\<close>

definition py_str :: "ustring \<Rightarrow> error + ustring" where
  "py_str s = (if list_all (\<lambda>c. c < 128) s then Inr s else Inl UnicodeEncodeError)"

text \<open>
  The loop of \<^verbatim>\<open>newNode\<close> over \<^verbatim>\<open>attrib.items()\<close>, with \<^verbatim>\<open>cleanAttrib\<close> as the
  accumulator; \<^verbatim>\<open>cleanAttrib[k] = v\<close> is the update of the dictionary. The first
  component of the result is what the calls of \<^verbatim>\<open>fixXmlTag\<close> printed.
\<close>

fun cleanAttribLoop ::
  "(ustring \<times> ustring) list \<Rightarrow> (pyval \<times> pyval) list \<Rightarrow> ustring list \<times> (error + (pyval \<times> pyval) list)"
where
  "cleanAttribLoop [] cleanAttrib = ([], Inr cleanAttrib)"
| "cleanAttribLoop ((key, val) # rest) cleanAttrib =
     (case py_str val of
        Inl e \<Rightarrow> ([], Inl e)
      | Inr v \<Rightarrow>
          (case fixXmlTag (Str key) of
             (out, Inl e) \<Rightarrow> (out, Inl e)
           | (out, Inr k) \<Rightarrow>
               (case cleanAttribLoop rest (AList.update k (fixXmlText (Str v)) cleanAttrib) of
                  (out', r) \<Rightarrow> (out @ out', r))))"

text \<open>
  \<^verbatim>\<open>newNode(tag, text, attrib)\<close> with a string \<^verbatim>\<open>text\<close> and a dictionary of strings,
  as its docstring asks. \<^verbatim>\<open>ET.Element(tag, attrib=cleanAttrib)\<close> has no text, no tail
  and no children; \<^verbatim>\<open>fixXmlText\<close> of a string is a string.
\<close>

definition newNode ::
  "pyval \<Rightarrow> ustring \<Rightarrow> (ustring \<times> ustring) list \<Rightarrow> ustring list \<times> (error + element)"
where
  "newNode tg txt attrib =
     (case fixXmlTag tg of
        (out1, Inl e) \<Rightarrow> (out1, Inl e)
      | (out1, Inr tg') \<Rightarrow>
          (case py_str txt of
             Inl e \<Rightarrow> (out1, Inl e)
           | Inr txt' \<Rightarrow>
               (case cleanAttribLoop attrib [] of
                  (out2, Inl e) \<Rightarrow> (out1 @ out2, Inl e)
                | (out2, Inr cleanAttrib) \<Rightarrow>
                    (out1 @ out2,
                     Inr (Element tg' cleanAttrib
                            (case fixXmlText (Str txt') of Str t \<Rightarrow> Some t | _ \<Rightarrow> None)
                            None [])))))"

text \<open>
  \<^verbatim>\<open>newTree(name, attrib)\<close>: \<^verbatim>\<open>newNode(name)\<close> is called with the defaults
  \<^verbatim>\<open>text=''\<close> and \<^verbatim>\<open>attrib={}\<close>, then the attribute dictionary of the root is
  replaced by \<^verbatim>\<open>dict(attrib)\<close>.
\<close>

definition newTree ::
  "pyval \<Rightarrow> (pyval \<times> pyval) list \<Rightarrow> ustring list \<times> (error + elementTree)"
where
  "newTree name attrib =
     (case fixXmlTag name of
        (out1, Inl e) \<Rightarrow> (out1, Inl e)
      | (out1, Inr name') \<Rightarrow>
          (case newNode name' [] [] of
             (out2, Inl e) \<Rightarrow> (out1 @ out2, Inl e)
           | (out2, Inr el) \<Rightarrow>
               (out1 @ out2,
                Inr (ElementTree (Element (el_tag el) attrib (el_text el) (el_tail el)
                                    (el_children el))))))"

subsection \<open>White space\<close>

text \<open>
  The white space of a unicode string (Python 2.7: \<^verbatim>\<open>unicode.isspace\<close>), which
  \<^verbatim>\<open>strip()\<close> removes.
\<close>

definition isspace :: "nat \<Rightarrow> bool" where
  "isspace c = in_ranges [(0x09, 0x0D), (0x1C, 0x20), (0x85, 0x85), (0xA0, 0xA0),
     (0x1680, 0x1680), (0x180E, 0x180E), (0x2000, 0x200A), (0x2028, 0x2029),
     (0x202F, 0x202F), (0x205F, 0x205F), (0x3000, 0x3000)] c"

text \<open>\<^verbatim>\<open>s.strip()\<close>\<close>

definition strip :: "ustring \<Rightarrow> ustring" where
  "strip s = rev (dropWhile isspace (rev (dropWhile isspace s)))"

subsection \<open>findPath\<close>

text \<open>
  \<^verbatim>\<open>s.split(sep)\<close> and \<^verbatim>\<open>sep.join(xs)\<close> for a separator of one character;
  \<^verbatim>\<open>split\<close> always returns at least one piece.
\<close>

fun py_split :: "nat \<Rightarrow> ustring \<Rightarrow> ustring list" where
  "py_split sep [] = [[]]"
| "py_split sep (c # cs) =
     (if c = sep then [] # py_split sep cs
      else (case py_split sep cs of [] \<Rightarrow> [[c]] | p # ps \<Rightarrow> (c # p) # ps))"

fun py_join :: "nat \<Rightarrow> ustring list \<Rightarrow> ustring" where
  "py_join sep [] = []"
| "py_join sep [x] = x"
| "py_join sep (x # y # ys) = x @ sep # py_join sep (y # ys)"

definition bar :: nat where
  "bar = 0x7C"

text \<open>
  \<^verbatim>\<open>node.find(path)\<close> of ElementTree reads its argument as a path expression
  (module \<^verbatim>\<open>ElementPath\<close> of the library). The expressions modelled here are the
  sequences of steps separated by one slash, where a step is a plain tag name, \<^verbatim>\<open>*\<close>
  or \<^verbatim>\<open>.\<close>, and the expressions that begin with a slash.

  A plain tag name is a string that the tokenizer of \<^verbatim>\<open>ElementPath\<close> reads as one tag:
  it is not empty, holds no blank and none of the characters of the path syntax
  (\<^verbatim>\<open>/ * : [ ] ( ) @ = ! ' " { }\<close>), and does not begin with a period.
\<close>

definition pathSyntaxChars :: "nat list" where
  "pathSyntaxChars = ustr ''/*:[]()@=!'' @ [0x27, 0x22, 0x7B, 0x7D]"

definition plainTag :: "ustring \<Rightarrow> bool" where
  "plainTag name =
     (case name of
        [] \<Rightarrow> False
      | c # _ \<Rightarrow> c \<noteq> 0x2E \<and> list_all (\<lambda>d. d \<notin> set pathSyntaxChars \<and> \<not> isspace d) name)"

text \<open>
  The steps: a tag name selects, of every element selected so far, the children with that
  tag; \<^verbatim>\<open>*\<close> selects all their children; \<^verbatim>\<open>.\<close> keeps the selection.
\<close>

datatype step = ChildStep ustring | StarStep | SelfStep

definition parseStep :: "ustring \<Rightarrow> step option" where
  "parseStep s =
     (if s = ustr ''*'' then Some StarStep
      else if s = ustr ''.'' then Some SelfStep
      else if plainTag s then Some (ChildStep s)
      else None)"

fun select :: "step \<Rightarrow> element list \<Rightarrow> element list" where
  "select (ChildStep name) result =
     concat (map (\<lambda>elem. filter (\<lambda>e. el_tag e = Str name) (el_children elem)) result)"
| "select StarStep result = concat (map el_children result)"
| "select SelfStep result = result"

text \<open>
  \<^verbatim>\<open>find\<close> returns the first element of the selection, or \<^verbatim>\<open>None\<close>; a path that
  begins with a slash raises \<^verbatim>\<open>SyntaxError\<close> (\<^verbatim>\<open>cannot use absolute path on
  element\<close>). What the library does with any other expression (predicates, \<^verbatim>\<open>..\<close>,
  \<^verbatim>\<open>//\<close>, the empty path and so on) is the parameter \<open>other\<close>.
\<close>

definition slash :: nat where
  "slash = 0x2F"

definition find_el ::
  "(element \<Rightarrow> ustring \<Rightarrow> error + element option) \<Rightarrow> element \<Rightarrow> ustring \<Rightarrow> error + element option"
where
  "find_el other node path =
     (case path of
        [] \<Rightarrow> other node path
      | c # _ \<Rightarrow>
          if c = slash then Inl SyntaxError
          else (case those (map parseStep (py_split slash path)) of
                  None \<Rightarrow> other node path
                | Some steps \<Rightarrow>
                    Inr (case foldl (\<lambda>result s. select s result) [node] steps of
                           [] \<Rightarrow> None
                         | e # _ \<Rightarrow> Some e)))"

text \<open>
  \<^verbatim>\<open>findPath\<close> calls itself on the path without its last segment, joined again;
  \<^verbatim>\<open>path[:-1]\<close> is \<open>butlast\<close> and \<^verbatim>\<open>path[-1]\<close> is \<open>last\<close> of a list that is never
  empty. An exception raised by \<^verbatim>\<open>find\<close> propagates out of \<^verbatim>\<open>findPath\<close>.
\<close>

function findPath ::
  "(element \<Rightarrow> ustring \<Rightarrow> error + element option) \<Rightarrow> element \<Rightarrow> ustring \<Rightarrow> error + element option"
where
  "findPath other root path =
     (let p = py_split bar path
      in if length p > 1
         then (case findPath other root (py_join bar (butlast p)) of
                 Inl e \<Rightarrow> Inl e
               | Inr (Some oneUp) \<Rightarrow> find_el other oneUp (last p)
               | Inr None \<Rightarrow> Inr None)
         else find_el other root (last p))"
  by pat_completeness auto
termination
proof (relation "measure (\<lambda>(other, root, path). length path)")
  show "wf (measure (\<lambda>(other, root, path). length path))" by simp
next
  fix other :: "element \<Rightarrow> ustring \<Rightarrow> error + element option"
    and root :: element and path :: ustring and p :: "ustring list"
  assume p: "p = py_split bar path" and len: "1 < length p"
  have joined: "py_join sep (py_split sep s) = s" for sep s
  proof (induction s)
    case Nil
    show ?case by simp
  next
    case (Cons c cs)
    show ?case
    proof (cases "py_split sep cs")
      case Nil
      with Cons show ?thesis by simp
    next
      case (Cons q qs)
      with Cons.IH show ?thesis by (cases qs) auto
    qed
  qed
  have shorter: "1 < length xs \<Longrightarrow> length (py_join sep (butlast xs)) < length (py_join sep xs)"
    for sep xs
  proof (induction sep xs rule: py_join.induct)
    case (3 sep x y ys)
    show ?case
    proof (cases ys)
      case Nil
      then show ?thesis by simp
    next
      case (Cons z zs)
      with 3 show ?thesis by simp
    qed
  qed simp_all
  have "length (py_join bar (butlast p)) < length (py_join bar p)"
    using shorter [OF len] .
  also have "py_join bar p = path"
    using p joined by simp
  finally show "((other, root, py_join bar (butlast p)), (other, root, path)) \<in> measure (\<lambda>(other, root, path). length path)"
    by simp
qed

subsection \<open>prettify\<close>

text \<open>\<^verbatim>\<open>os.linesep\<close> on a POSIX system, and the blank.\<close>

definition linesep :: ustring where
  "linesep = [0x0A]"

definition spaces :: "nat \<Rightarrow> ustring" where
  "spaces n = replicate n 0x20"

text \<open>
  \<^verbatim>\<open>s.replace(old, new)\<close>: every occurrence of \<open>old\<close>, found from the left and not
  overlapping an earlier one, becomes \<open>new\<close>.
\<close>

fun replace :: "ustring \<Rightarrow> ustring \<Rightarrow> ustring \<Rightarrow> ustring" where
  "replace old new [] = (if old = [] then new else [])"
| "replace old new (c # cs) =
     (if old = [] then new @ c # replace old new cs
      else if take (length old) (c # cs) = old
      then new @ replace old new (drop (length old - 1) cs)
      else c # replace old new cs)"

text \<open>
  The string in the \<^verbatim>\<open>tail\<close> of a child that \<^verbatim>\<open>prettifyNode\<close> has visited (the
  visit assigns a string to it), and an assignment to the \<^verbatim>\<open>tail\<close> of the last child
  of a node: after the loop \<^verbatim>\<open>for child in node\<close> the variable \<^verbatim>\<open>child\<close> is the
  last child, and it is \<^verbatim>\<open>None\<close> when there was none.
\<close>

definition tailStr :: "element \<Rightarrow> ustring" where
  "tailStr node = (case el_tail node of None \<Rightarrow> [] | Some t \<Rightarrow> t)"

definition setTail :: "(ustring \<Rightarrow> ustring) \<Rightarrow> element \<Rightarrow> element" where
  "setTail f node =
     Element (el_tag node) (el_attrib node) (el_text node) (Some (f (tailStr node))) (el_children node)"

definition onLastChild :: "(element \<Rightarrow> element) \<Rightarrow> element list \<Rightarrow> element list" where
  "onLastChild f kids = (if kids = [] then [] else butlast kids @ [f (last kids)])"

text \<open>
  \<^verbatim>\<open>prettifyNode(node, tabs)\<close> returns the node after the assignments; \<^verbatim>\<open>t[:-2]\<close> is
  \<open>take (length t - 2) t\<close>.
\<close>

fun prettifyNode :: "element \<Rightarrow> nat \<Rightarrow> element" where
  "prettifyNode (Element tg at tx ta kids) tabs =
     (let space = spaces (2 * tabs);
          text0 = (case tx of None \<Rightarrow> [] | Some t \<Rightarrow> t);
          (text1, kids1) =
            (if length kids > 0
             then (strip text0 @ linesep @ space @ spaces 2,
                   onLastChild (setTail (\<lambda>t. take (length t - 2) t))
                     (map (\<lambda>child. prettifyNode child (tabs + 1)) kids))
             else (text0, kids));
          tail0 = (case ta of None \<Rightarrow> [] | Some t \<Rightarrow> strip t);
          lines = (if tabs = 1 \<and> \<not> isComment (Element tg at tx ta kids)
                   then linesep @ linesep else linesep);
          tail1 = tail0 @ lines @ space;
          kids2 = (if tabs = 0 \<and> kids \<noteq> []
                   then onLastChild (setTail (replace (linesep @ linesep) linesep)) kids1
                   else kids1)
      in Element tg at (Some text1) (Some tail1) kids2)"

text \<open>
  \<^verbatim>\<open>prettify\<close> takes an \<^verbatim>\<open>ElementTree\<close> or an element. It returns the serialization
  of the root; \<open>tostring\<close> stands for \<^verbatim>\<open>ET.tostring\<close> of the library. The first
  component of the result is the argument after the call.
\<close>

datatype xmlArg = TreeArg elementTree | NodeArg element

definition prettify :: "(element \<Rightarrow> 'out) \<Rightarrow> xmlArg \<Rightarrow> xmlArg \<times> 'out" where
  "prettify tostring tree =
     (case tree of
        TreeArg t \<Rightarrow> (let r = prettifyNode (getroot t) 0 in (TreeArg (ElementTree r), tostring r))
      | NodeArg n \<Rightarrow> (let r = prettifyNode n 0 in (NodeArg r, tostring r)))"

section \<open>OutStreamEntity\<close>

text \<open>
  An instance of \<^verbatim>\<open>OutStreamEntity\<close>: the fields its own \<^verbatim>\<open>__init__\<close> assigns, after
  the fields of \<^verbatim>\<open>BaseEntity\<close>, whose class is not part of these sources and whose state
  is the parameter \<open>'base\<close>.
\<close>

record 'base outStreamEntity =
  baseEntity :: 'base
  printTag :: string
  entityType :: string

definition init :: "'base \<Rightarrow> 'base outStreamEntity" where
  "init b = \<lparr>baseEntity = b, printTag = ''OutStreamManager'', entityType = ''Base''\<rparr>"

text \<open>Each method returns the instance after the call and the value returned.\<close>

definition initialize :: "'base outStreamEntity \<Rightarrow> 'ents \<Rightarrow> 'base outStreamEntity \<times> pyval" where
  "initialize self stepEntities = (self, NoneV)"

definition addOutput :: "'base outStreamEntity \<Rightarrow> 'base outStreamEntity \<times> pyval" where
  "addOutput self = (self, NoneV)"

definition getInitParams ::
  "'base outStreamEntity \<Rightarrow> 'base outStreamEntity \<times> (pyval \<times> pyval) list" where
  "getInitParams self = (let paramDict = [] in (self, paramDict))"

section \<open>The properties, as the specification words them\<close>

text \<open>
  The legal tag characters: letters, digits, hyphen, underscore and period. A name is
  reserved when it begins with \<^verbatim>\<open>xml\<close> in any letter case.
\<close>

definition legalTagChar :: "nat \<Rightarrow> bool" where
  "legalTagChar c =
     ((0x61 \<le> c \<and> c \<le> 0x7A) \<or> (0x41 \<le> c \<and> c \<le> 0x5A) \<or> (0x30 \<le> c \<and> c \<le> 0x39)
      \<or> c = 0x2D \<or> c = 0x5F \<or> c = 0x2E)"

definition letterOrUnderscore :: "nat \<Rightarrow> bool" where
  "letterOrUnderscore c = ((0x61 \<le> c \<and> c \<le> 0x7A) \<or> (0x41 \<le> c \<and> c \<le> 0x5A) \<or> c = 0x5F)"

definition beginsWithXml :: "ustring \<Rightarrow> bool" where
  "beginsWithXml s =
     (case s of
        a # b # c # _ \<Rightarrow>
          (a = 0x78 \<or> a = 0x58) \<and> (b = 0x6D \<or> b = 0x4D) \<and> (c = 0x6C \<or> c = 0x4C)
      | _ \<Rightarrow> False)"

text \<open>A well-formed tag: legal characters only, a letter or an underscore first, and
  not reserved.\<close>

definition validTag :: "ustring \<Rightarrow> bool" where
  "validTag r =
     (list_all legalTagChar r \<and> (case r of [] \<Rightarrow> False | c # _ \<Rightarrow> letterOrUnderscore c)
      \<and> \<not> beginsWithXml r)"

text \<open>
  The tag-specific rules in the words of the specification: every character outside the
  legal tag characters becomes a period; an underscore is prepended when the first
  character is not a letter or an underscore, or when the name is reserved.
\<close>

definition tagRules :: "ustring \<Rightarrow> ustring" where
  "tagRules s =
     (let m = map (\<lambda>c. if legalTagChar c then c else 0x2E) s
      in if (case m of [] \<Rightarrow> True | c # _ \<Rightarrow> \<not> letterOrUnderscore c) \<or> beginsWithXml m
         then 0x5F # m else m)"

text \<open>The text sanitization first, the tag-specific rules on its result.\<close>

definition tagAfterText :: "ustring \<Rightarrow> pyval" where
  "tagAfterText s = (case fixXmlText (Str s) of Str t \<Rightarrow> Str (tagRules t) | v \<Rightarrow> v)"

definition isSurrogate :: "nat \<Rightarrow> bool" where
  "isSurrogate c = (0xD800 \<le> c \<and> c \<le> 0xDFFF)"

text \<open>
  A string that the test \<^verbatim>\<open>re.match(notAllTagChars, msg)\<close> accepts although it holds
  a character that is not legal in a tag.
\<close>

definition acceptedWithIllegal :: "ustring \<Rightarrow> bool" where
  "acceptedWithIllegal s = (re_match notAllTagChars s \<and> \<not> list_all legalTagChar s)"

text \<open>
  Resolving the segments of a path from the left: each segment is looked up among the
  children of the node reached so far, the first child with that tag being taken, and the
  first segment without a match ends the search with \<^verbatim>\<open>None\<close>.
\<close>

definition firstChildTagged :: "element \<Rightarrow> ustring \<Rightarrow> element option" where
  "firstChildTagged node name = List.find (\<lambda>c. el_tag c = Str name) (el_children node)"

fun resolve :: "element \<Rightarrow> ustring list \<Rightarrow> element option" where
  "resolve node [] = Some node"
| "resolve node (seg # segs) =
     (case firstChildTagged node seg of None \<Rightarrow> None | Some child \<Rightarrow> resolve child segs)"

text \<open>A library that answers \<^verbatim>\<open>None\<close> on the expressions left open, for the
  examples.\<close>

definition noOther :: "element \<Rightarrow> ustring \<Rightarrow> error + element option" where
  "noOther node path = Inr None"

text \<open>What \<^verbatim>\<open>prettifyNode\<close> must leave alone: the tag, the attributes and the
  children, in their order, of every node.\<close>

datatype skeleton = Skeleton pyval "(pyval \<times> pyval) list" "skeleton list"

fun skeleton_of :: "element \<Rightarrow> skeleton" where
  "skeleton_of (Element tg at tx ta kids) = Skeleton tg at (map skeleton_of kids)"

definition rootOf :: "xmlArg \<Rightarrow> element" where
  "rootOf tree = (case tree of TreeArg t \<Rightarrow> getroot t | NodeArg n \<Rightarrow> n)"

text \<open>
  The layout of a formatted tree, node by node. \<open>layout d lastc node\<close> is the node at
  depth \<open>d\<close>; \<open>lastc\<close> says that it is the last child of its parent.
  \<^item> A node with children starts, after its stripped text, a new line indented for
    its children, two blanks for each level. The text of a leaf is kept.
  \<^item> The stripped tail of a node is followed by a line break and the indentation of what
    comes next: that of the node, or of its parent when the node is a last child.
  \<^item> At depth 1 the line break is doubled, leaving a blank line, unless the node itself is
    a comment; in the tail of the last child of the root every doubled line break is
    reduced to one.
\<close>

fun layout :: "nat \<Rightarrow> bool \<Rightarrow> element \<Rightarrow> element"
  and layoutKids :: "nat \<Rightarrow> element list \<Rightarrow> element list"
where
  "layout d lastc (Element tg at tx ta kids) =
     Element tg at
       (Some (if kids = [] then (case tx of None \<Rightarrow> [] | Some t \<Rightarrow> t)
              else strip (case tx of None \<Rightarrow> [] | Some t \<Rightarrow> t) @ linesep @ spaces (2 * (d + 1))))
       (Some (let t = (case ta of None \<Rightarrow> [] | Some t \<Rightarrow> strip t)
                      @ (if d = 1 \<and> \<not> isComment (Element tg at tx ta kids)
                         then linesep @ linesep else linesep)
                      @ spaces (2 * (if lastc then d - 1 else d))
              in if d = 1 \<and> lastc then replace (linesep @ linesep) linesep t else t))
       (layoutKids (d + 1) kids)"
| "layoutKids d [] = []"
| "layoutKids d [c] = [layout d True c]"
| "layoutKids d (c # c' # cs) = layout d False c # layoutKids d (c' # cs)"

text \<open>
  The tail of the \<open>i\<close>-th child of the root as the specification has it: a blank line
  between two siblings except before a comment node, and none after the last child.
\<close>

definition firstLevelTailSpec :: "element list \<Rightarrow> nat \<Rightarrow> ustring" where
  "firstLevelTailSpec kids i =
     strip (tailStr (kids ! i)) @
     (if Suc i = length kids then linesep
      else if isComment (kids ! Suc i) then linesep @ spaces 2
      else linesep @ linesep @ spaces 2)"

section \<open>Auxiliary definitions\<close>

text \<open>Rule 2 of \<^verbatim>\<open>fixXmlTag\<close> on the string \<open>m\<close> that rule 1 leaves, after the
  notices \<open>out\<close>.\<close>

definition rule2 :: "ustring list \<Rightarrow> ustring \<Rightarrow> ustring list \<times> (error + pyval)" where
  "rule2 out m =
     (case m of
        [] \<Rightarrow> (out, Inl IndexError)
      | c # _ \<Rightarrow>
          if \<not> re_match lettersOrUnderscore [c] \<or> re_match xmlPrefix (take 3 m)
          then (out @ [noticePrepending m], Inr (Str (ustr ''_'' @ m)))
          else (out, Inr (Str m)))"

text \<open>What the parent at depth \<open>d - 1\<close> makes of the tail that its last child gave
  itself: the last two blanks go, and under the root doubled line breaks are reduced.\<close>

definition lastFix :: "nat \<Rightarrow> ustring \<Rightarrow> ustring" where
  "lastFix d t =
     (if d = 1 then replace (linesep @ linesep) linesep (take (length t - 2) t)
      else take (length t - 2) t)"

text \<open>A small tree for the examples: a root with an element, a comment and another
  element as its children.\<close>

definition exTree :: element where
  "exTree = Element (Str (ustr ''r'')) [] None None
     [Element (Str (ustr ''a'')) [] None None [Element (Str (ustr ''x'')) [] None None []],
      Element (FuncV (ustr ''Comment'')) [] (Some (ustr ''note'')) None [],
      Element (Str (ustr ''b'')) [] None None []]"

section \<open>Evaluating the patterns\<close>

lemmas rx_defs = re_sub_def re_match_def RE_XML_ILLEGAL_def illegalChars_def hiSurr_def
  loSurr_def in_ranges_def ustr_def tagChars_def notTagChars_def notAllTagChars_def
  lettersOrUnderscore_def xmlPrefix_def

section \<open>OutStreamEntity: the base methods\<close>

text \<open>
  Claim C9. On the base \<^verbatim>\<open>OutStreamEntity\<close>, for every instance and every argument,
  \<^verbatim>\<open>initialize\<close> and \<^verbatim>\<open>addOutput\<close> return nothing (\<^verbatim>\<open>None\<close>) and leave every
  field of the instance as it was, and \<^verbatim>\<open>getInitParams\<close> returns an empty mapping.
\<close>

theorem outStream_base_methods:
  "initialize self stepEntities = (self, NoneV) \<and> addOutput self = (self, NoneV)
   \<and> getInitParams self = (self, [])"
  by (simp add: initialize_def addOutput_def getInitParams_def)

text \<open>The instance that \<^verbatim>\<open>__init__\<close> builds, with a dictionary of one entity.\<close>

theorem outStream_base_methods_witness:
  "initialize (init ()) [(''a'', 1::nat)] = (init (), NoneV)
   \<and> addOutput (init ()) = (init (), NoneV)
   \<and> getInitParams (init ()) = (init (), [])"
  using outStream_base_methods [of "init ()" "[(''a'', 1::nat)]"] by simp

section \<open>fixXmlTag and fixXmlText at particular inputs\<close>

text \<open>
  Claim C3 says that \<^verbatim>\<open>fixXmlTag\<close> and \<^verbatim>\<open>fixXmlText\<close> return normally for every
  input, the empty string included. On the empty string \<^verbatim>\<open>fixXmlTag\<close> reaches
  \<^verbatim>\<open>msg[0]\<close> and raises \<^verbatim>\<open>IndexError\<close>.
\<close>

theorem fixXmlTag_empty_raises: "snd (fixXmlTag (Str [])) = Inl IndexError"
  by code_simp

theorem fixXmlTag_empty_raises_witness: "\<exists>e. snd (fixXmlTag (Str [])) = Inl e"
  using fixXmlTag_empty_raises by simp

text \<open>
  Claim C1 says that the result of \<^verbatim>\<open>fixXmlTag\<close> on a string that is not empty holds
  legal tag characters only, starts with a letter or an underscore and is not reserved.
  The string \<^verbatim>\<open>"a\n"\<close> passes the test of rule 1, whose \<^verbatim>\<open>$\<close> matches before the
  newline that ends it, and is returned as it is, with the newline.
\<close>

theorem fixXmlTag_trailing_newline:
  "fixXmlTag (Str (ustr ''a'' @ [0x0A])) = ([], Inr (Str (ustr ''a'' @ [0x0A])))
   \<and> legalTagChar 0x0A = False \<and> validTag (ustr ''a'' @ [0x0A]) = False"
  by code_simp

theorem fixXmlTag_trailing_newline_witness:
  "snd (fixXmlTag (Str (ustr ''a'' @ [0x0A]))) = Inr (Str [0x61, 0x0A])"
  using fixXmlTag_trailing_newline by (simp add: ustr_def)

text \<open>
  Claim C5 says that \<^verbatim>\<open>fixXmlText\<close> replaces every occurrence of a character that is
  illegal in XML text, a surrogate without its partner among them. In
  \<^verbatim>\<open>u"A\udc00\udc00"\<close> the first two characters are replaced together and the low
  surrogate behind them stays; in \<^verbatim>\<open>u"\ud800\udc00\udc00"\<close> the low surrogate of the
  pair is replaced with the one behind it and the high surrogate stays alone.
\<close>

theorem fixXmlText_keeps_lone_surrogate:
  "fixXmlText (Str [0x41, 0xDC00, 0xDC00]) = Str [0x3F, 0xDC00]
   \<and> fixXmlText (Str [0xD800, 0xDC00, 0xDC00]) = Str [0xD800, 0x3F]"
  by (simp add: fixXmlText_def rx_defs)

theorem fixXmlText_keeps_lone_surrogate_witness:
  "\<exists>t. fixXmlText (Str [0x41, 0xDC00, 0xDC00]) = Str t \<and> isSurrogate (last t)"
  using fixXmlText_keeps_lone_surrogate by (simp add: isSurrogate_def)

section \<open>The patterns of fixXmlTag\<close>

declare rx_m.simps(7) [simp del]

lemma in_tagChars: "in_ranges tagChars c = legalTagChar c"
  by (auto simp: in_ranges_def tagChars_def legalTagChar_def)

lemma re_sub_from_NotIn:
  "re_sub_from (NotIn rs) repl bos s = concat (map (\<lambda>c. if in_ranges rs c then [c] else repl) s)"
  by (induction s arbitrary: bos) simp_all

lemma re_sub_notTagChars:
  "re_sub notTagChars (ustr ''.'') s = map (\<lambda>c. if legalTagChar c then c else 0x2E) s"
  unfolding re_sub_def notTagChars_def re_sub_from_NotIn
  by (induction s) (simp_all add: in_tagChars ustr_def)

lemma rx_m_Plus_In_Nil: "rx_m (Plus (In rs)) bos [] = []"
  by (subst rx_m.simps(7)) simp

lemma rx_m_Plus_In_Cons:
  "rx_m (Plus (In rs)) bos (c # cs) =
     (if in_ranges rs c then map Suc (rx_m (Plus (In rs)) False cs) @ [Suc 0] else [])"
  by (subst rx_m.simps(7)) simp

lemma set_rx_m_Plus_In:
  "set (rx_m (Plus (In rs)) bos s) = {n. 1 \<le> n \<and> n \<le> length (takeWhile (in_ranges rs) s)}"
proof (induction s arbitrary: bos)
  case Nil
  show ?case by (simp only: rx_m_Plus_In_Nil) auto
next
  case (Cons c cs)
  show ?case
  proof (cases "in_ranges rs c")
    case True
    have step: "Suc ` {n. 1 \<le> n \<and> n \<le> k} \<union> {Suc 0} = {n. 1 \<le> n \<and> n \<le> Suc k}" for k
    proof (rule set_eqI)
      fix n
      show "n \<in> Suc ` {n. 1 \<le> n \<and> n \<le> k} \<union> {Suc 0} \<longleftrightarrow> n \<in> {n. 1 \<le> n \<and> n \<le> Suc k}"
        by (cases n) (auto simp: image_iff)
    qed
    have "set (rx_m (Plus (In rs)) bos (c # cs)) = Suc ` set (rx_m (Plus (In rs)) False cs) \<union> {Suc 0}"
      using True by (simp only: rx_m_Plus_In_Cons) simp
    also have "\<dots> = {n. 1 \<le> n \<and> n \<le> Suc (length (takeWhile (in_ranges rs) cs))}"
      unfolding Cons.IH by (rule step)
    finally show ?thesis using True by simp
  next
    case False
    then show ?thesis by (simp only: rx_m_Plus_In_Cons) auto
  qed
qed

lemma re_match_notAllTagChars_iff:
  "re_match notAllTagChars s \<longleftrightarrow>
     (\<exists>n. 1 \<le> n \<and> n \<le> length (takeWhile legalTagChar s) \<and> (drop n s = [] \<or> drop n s = [0x0A]))"
proof -
  have "re_match notAllTagChars s \<longleftrightarrow>
        (\<exists>n \<in> set (rx_m (Plus (In tagChars)) True s). drop n s = [] \<or> drop n s = [0x0A])"
    by (auto simp: re_match_def notAllTagChars_def)
  also have "\<dots> \<longleftrightarrow> (\<exists>n. 1 \<le> n \<and> n \<le> length (takeWhile legalTagChar s)
                          \<and> (drop n s = [] \<or> drop n s = [0x0A]))"
    unfolding set_rx_m_Plus_In using in_tagChars by (auto simp: in_tagChars [abs_def])
  finally show ?thesis .
qed


lemma take_takeWhile: "n \<le> length (takeWhile P s) \<Longrightarrow> take n s = take n (takeWhile P s)"
proof -
  assume n: "n \<le> length (takeWhile P s)"
  have "take n s = take n (takeWhile P s @ dropWhile P s)" by simp
  also have "\<dots> = take n (takeWhile P s)" using n by (simp only: take_append) simp
  finally show ?thesis .
qed

lemma re_match_notAllTagChars:
  "re_match notAllTagChars s \<longleftrightarrow>
     (s \<noteq> [] \<and> list_all legalTagChar s)
     \<or> (\<exists>t. t \<noteq> [] \<and> list_all legalTagChar t \<and> s = t @ [0x0A])"
  (is "?L \<longleftrightarrow> ?A \<or> ?B")
proof
  assume ?L
  then obtain n where n: "1 \<le> n" "n \<le> length (takeWhile legalTagChar s)"
    and d: "drop n s = [] \<or> drop n s = [0x0A]"
    unfolding re_match_notAllTagChars_iff by blast
  have legal: "list_all legalTagChar (take n s)"
    unfolding take_takeWhile [OF n(2)] list_all_iff
    by (auto dest: in_set_takeD set_takeWhileD)
  from d show "?A \<or> ?B"
  proof
    assume "drop n s = []"
    then have "take n s = s" by simp
    moreover have "s \<noteq> []" using n by auto
    ultimately show ?thesis using legal by simp
  next
    assume dn: "drop n s = [0x0A]"
    have "s = take n s @ [0x0A]" using append_take_drop_id [of n s] dn by simp
    moreover have "take n s \<noteq> []" using n by auto
    ultimately show ?thesis using legal by blast
  qed
next
  assume "?A \<or> ?B"
  then show ?L
  proof
    assume a: ?A
    then have "\<forall>x\<in>set s. legalTagChar x" by (simp add: list_all_iff)
    then have tw: "takeWhile legalTagChar s = s" by (rule takeWhile_eq_all_conv [THEN iffD2])
    have "length s \<le> length (takeWhile legalTagChar s)" unfolding tw by simp
    moreover have "1 \<le> length s" using a by (cases s) simp_all
    moreover have "drop (length s) s = []" by simp
    ultimately show ?L unfolding re_match_notAllTagChars_iff by blast
  next
    assume ?B
    then obtain t where t: "t \<noteq> []" "list_all legalTagChar t" "s = t @ [0x0A]" by blast
    have tw: "takeWhile legalTagChar s = t"
      using t by (simp add: list_all_iff takeWhile_append2 legalTagChar_def)
    have "length t \<le> length (takeWhile legalTagChar s)" unfolding tw by simp
    moreover have "1 \<le> length t" using t by (cases t) simp_all
    moreover have "drop (length t) s = [0x0A]" using t by simp
    ultimately show ?L unfolding re_match_notAllTagChars_iff by blast
  qed
qed

lemma re_match_lettersOrUnderscore: "re_match lettersOrUnderscore [c] = letterOrUnderscore c"
  by (auto simp: re_match_def lettersOrUnderscore_def in_ranges_def letterOrUnderscore_def)

lemma in_two: "in_ranges [(a, a), (b, b)] c = (c = a \<or> c = b)"
  by (auto simp: in_ranges_def)

lemma re_match_xmlPrefix3:
  "re_match xmlPrefix (a # b # c # r) = beginsWithXml (a # b # c # r')"
  by (auto simp: re_match_def xmlPrefix_def beginsWithXml_def in_two)

lemma re_match_xmlPrefix: "re_match xmlPrefix (take 3 m) = beginsWithXml m"
proof (cases m)
  case Nil
  then show ?thesis by (simp add: re_match_def xmlPrefix_def beginsWithXml_def)
next
  case m1: (Cons a m')
  show ?thesis
  proof (cases m')
    case Nil
    with m1 show ?thesis by (simp add: re_match_def xmlPrefix_def beginsWithXml_def)
  next
    case m2: (Cons b m'')
    show ?thesis
    proof (cases m'')
      case Nil
      with m1 m2 show ?thesis by (simp add: re_match_def xmlPrefix_def beginsWithXml_def)
    next
      case (Cons c r)
      have "take 3 (a # b # c # r) = a # b # c # []" by (simp add: numeral_3_eq_3)
      with m1 m2 Cons show ?thesis using re_match_xmlPrefix3 [of a b c "[]" r] by simp
    qed
  qed
qed

lemma not_xml_underscore: "\<not> beginsWithXml (0x5F # m)"
  by (simp add: beginsWithXml_def split: list.split)

lemma fixXmlTag_rule2:
  "fixXmlTag (Str s) =
     (if \<not> re_match notAllTagChars s
      then rule2 [noticeReplacing s (map (\<lambda>c. if legalTagChar c then c else 0x2E) s)]
             (map (\<lambda>c. if legalTagChar c then c else 0x2E) s)
      else rule2 [] s)"
  by (simp add: fixXmlTag_def rule2_def Let_def re_sub_notTagChars)

lemma snd_rule2:
  "snd (rule2 out m) =
     (case m of
        [] \<Rightarrow> Inl IndexError
      | c # _ \<Rightarrow> if \<not> letterOrUnderscore c \<or> beginsWithXml m
                 then Inr (Str (0x5F # m)) else Inr (Str m))"
proof (cases m)
  case Nil
  then show ?thesis by (simp add: rule2_def)
next
  case (Cons c r)
  have "re_match xmlPrefix (take 3 m) = beginsWithXml m" by (rule re_match_xmlPrefix)
  then show ?thesis
    unfolding rule2_def Cons list.case re_match_lettersOrUnderscore
    by (simp add: ustr_def del: take_Cons_numeral)
qed

lemma fst_rule2_valid:
  "letterOrUnderscore c \<Longrightarrow> \<not> beginsWithXml (c # r) \<Longrightarrow> rule2 out (c # r) = (out, Inr (Str (c # r)))"
proof -
  assume a: "letterOrUnderscore c" "\<not> beginsWithXml (c # r)"
  have "re_match xmlPrefix (take 3 (c # r)) = beginsWithXml (c # r)" by (rule re_match_xmlPrefix)
  with a show ?thesis
    unfolding rule2_def list.case re_match_lettersOrUnderscore
    by (simp del: take_Cons_numeral)
qed

lemma fixXmlTag_Str:
  "snd (fixXmlTag (Str s)) =
     (let m = (if re_match notAllTagChars s then s
               else map (\<lambda>c. if legalTagChar c then c else 0x2E) s)
      in case m of
           [] \<Rightarrow> Inl IndexError
         | c # _ \<Rightarrow> if \<not> letterOrUnderscore c \<or> beginsWithXml m
                    then Inr (Str (0x5F # m)) else Inr (Str m))"
  by (simp add: fixXmlTag_rule2 snd_rule2 Let_def)

lemma fixXmlTag_accepted:
  "re_match notAllTagChars (c # r) \<Longrightarrow> letterOrUnderscore c \<Longrightarrow> \<not> beginsWithXml (c # r)
   \<Longrightarrow> fixXmlTag (Str (c # r)) = ([], Inr (Str (c # r)))"
  by (simp add: fixXmlTag_rule2 fst_rule2_valid)

lemma accepted_map:
  "s \<noteq> [] \<Longrightarrow> re_match notAllTagChars (map (\<lambda>c. if legalTagChar c then c else 0x2E) s)"
  unfolding re_match_notAllTagChars
  by (rule disjI1) (auto simp: list_all_iff legalTagChar_def)

lemma accepted_underscore:
  "re_match notAllTagChars m \<Longrightarrow> re_match notAllTagChars (0x5F # m)"
  unfolding re_match_notAllTagChars
proof (elim disjE exE conjE)
  assume "m \<noteq> []" "list_all legalTagChar m"
  then show "(0x5F # m \<noteq> [] \<and> list_all legalTagChar (0x5F # m)) \<or>
    (\<exists>t. t \<noteq> [] \<and> list_all legalTagChar t \<and> 0x5F # m = t @ [0x0A])"
    by (simp add: legalTagChar_def)
next
  fix t assume "t \<noteq> []" "list_all legalTagChar t" "m = t @ [0x0A]"
  then have "0x5F # t \<noteq> [] \<and> list_all legalTagChar (0x5F # t) \<and> 0x5F # m = (0x5F # t) @ [0x0A]"
    by (simp add: legalTagChar_def)
  then show "(0x5F # m \<noteq> [] \<and> list_all legalTagChar (0x5F # m)) \<or>
    (\<exists>t. t \<noteq> [] \<and> list_all legalTagChar t \<and> 0x5F # m = t @ [0x0A])"
    by blast
qed

lemma fixXmlTag_fixed:
  assumes "snd (fixXmlTag (Str s)) = Inr v"
  shows "fixXmlTag v = ([], Inr v)"
proof -
  define m where "m = (if re_match notAllTagChars s then s
                       else map (\<lambda>c. if legalTagChar c then c else 0x2E) s)"
  have val: "snd (fixXmlTag (Str s)) =
     (case m of [] \<Rightarrow> Inl IndexError
      | c # _ \<Rightarrow> if \<not> letterOrUnderscore c \<or> beginsWithXml m
                 then Inr (Str (0x5F # m)) else Inr (Str m))"
    unfolding fixXmlTag_Str m_def by (simp add: Let_def)
  from assms obtain c m' where m: "m = c # m'"
    unfolding val by (cases m) simp_all
  have "s \<noteq> []" using m unfolding m_def by (auto split: if_splits)
  then have acc: "re_match notAllTagChars m"
    unfolding m_def using accepted_map by simp
  show ?thesis
  proof (cases "\<not> letterOrUnderscore c \<or> beginsWithXml m")
    case True
    with assms m have v: "v = Str (0x5F # m)"
      unfolding val by simp
    have "fixXmlTag (Str (0x5F # m)) = ([], Inr (Str (0x5F # m)))"
      using accepted_underscore [OF acc] not_xml_underscore
      by (intro fixXmlTag_accepted) (simp_all add: letterOrUnderscore_def)
    with v show ?thesis by simp
  next
    case False
    with assms m have v: "v = Str m"
      unfolding val by simp
    have "fixXmlTag (Str m) = ([], Inr (Str m))"
      using acc False unfolding m by (intro fixXmlTag_accepted) simp_all
    with v show ?thesis by simp
  qed
qed

lemma fixXmlTag_returns:
  "s \<noteq> [] \<Longrightarrow> \<exists>r. snd (fixXmlTag (Str s)) = Inr (Str r)"
  unfolding fixXmlTag_Str by (cases s) (simp_all add: Let_def)

text \<open>Apart from the strings of \<open>acceptedWithIllegal\<close>, the result is a well-formed tag.\<close>

lemma fixXmlTag_valid:
  assumes "s \<noteq> []" and "\<not> acceptedWithIllegal s"
  shows "\<exists>r. snd (fixXmlTag (Str s)) = Inr (Str r) \<and> validTag r"
proof -
  let ?dot = "\<lambda>c. if legalTagChar c then c else 0x2E"
  have m: "(if re_match notAllTagChars s then s else map ?dot s) = map ?dot s"
  proof (cases "re_match notAllTagChars s")
    case True
    with assms(2) have "list_all legalTagChar s" by (simp add: acceptedWithIllegal_def)
    then have "map ?dot s = s" by (simp add: list_all_iff map_idI)
    with True show ?thesis by simp
  next
    case False
    then show ?thesis by simp
  qed
  obtain c r where cr: "map ?dot s = c # r" using assms(1) by (cases s) auto
  have legal: "list_all legalTagChar (c # r)"
    unfolding cr [symmetric] by (auto simp: list_all_iff legalTagChar_def)
  show ?thesis
  proof (cases "\<not> letterOrUnderscore c \<or> beginsWithXml (c # r)")
    case True
    have "validTag (0x5F # c # r)"
      using legal not_xml_underscore [of "c # r"]
      by (simp add: validTag_def legalTagChar_def letterOrUnderscore_def)
    with True show ?thesis unfolding fixXmlTag_Str m by (simp add: Let_def cr)
  next
    case False
    then have "validTag (c # r)" using legal by (simp add: validTag_def)
    with False show ?thesis unfolding fixXmlTag_Str m by (simp add: Let_def cr)
  qed
qed

section \<open>newTree and the idempotence of fixXmlTag\<close>

lemma fixXmlText_empty: "fixXmlText (Str []) = Str []"
  by (simp add: fixXmlText_def rx_defs)

lemma newNode_fixed:
  "fixXmlTag v = ([], Inr v) \<Longrightarrow> newNode v [] [] = ([], Inr (Element v [] (Some []) None []))"
  by (simp add: newNode_def py_str_def fixXmlText_empty)

lemma newTree_Str:
  "newTree (Str name) attrib =
     (case fixXmlTag (Str name) of
        (out, Inl e) \<Rightarrow> (out, Inl e)
      | (out, Inr tg) \<Rightarrow> (out, Inr (ElementTree (Element tg attrib (Some []) None []))))"
proof (cases "fixXmlTag (Str name)")
  case (Pair out r)
  show ?thesis
  proof (cases r)
    case (Inl e)
    with Pair show ?thesis by (simp add: newTree_def)
  next
    case (Inr tg)
    with Pair have "snd (fixXmlTag (Str name)) = Inr tg" by simp
    then have "fixXmlTag tg = ([], Inr tg)" by (rule fixXmlTag_fixed)
    then have "newNode tg [] [] = ([], Inr (Element tg [] (Some []) None []))"
      by (rule newNode_fixed)
    with Pair Inr show ?thesis by (simp add: newTree_def)
  qed
qed

text \<open>
  On a string, \<^verbatim>\<open>newTree\<close> does what one call of \<^verbatim>\<open>fixXmlTag\<close> on the name does:
  the tag returned becomes the tag of the root, the given mapping is installed verbatim
  (no text but the empty string, no tail, no children), and an exception of that call is
  the exception of \<^verbatim>\<open>newTree\<close>. For a name that is not empty a tree is returned.
\<close>

lemma newTree_root:
  "newTree (Str name) attrib =
     (case fixXmlTag (Str name) of
        (out, Inl e) \<Rightarrow> (out, Inl e)
      | (out, Inr tg) \<Rightarrow> (out, Inr (ElementTree (Element tg attrib (Some []) None []))))
   \<and> (name \<noteq> [] \<longrightarrow>
        (\<exists>out tg. fixXmlTag (Str name) = (out, Inr (Str tg))
           \<and> newTree (Str name) attrib =
               (out, Inr (ElementTree (Element (Str tg) attrib (Some []) None [])))))"
proof (intro conjI impI)
  show eq: "newTree (Str name) attrib =
     (case fixXmlTag (Str name) of
        (out, Inl e) \<Rightarrow> (out, Inl e)
      | (out, Inr tg) \<Rightarrow> (out, Inr (ElementTree (Element tg attrib (Some []) None []))))"
    by (rule newTree_Str)
  assume "name \<noteq> []"
  then obtain tg where "snd (fixXmlTag (Str name)) = Inr (Str tg)"
    using fixXmlTag_returns by blast
  then obtain out where out: "fixXmlTag (Str name) = (out, Inr (Str tg))"
    by (cases "fixXmlTag (Str name)") simp
  then have "newTree (Str name) attrib =
      (out, Inr (ElementTree (Element (Str tg) attrib (Some []) None [])))"
    unfolding eq by simp
  with out show "\<exists>out tg. fixXmlTag (Str name) = (out, Inr (Str tg))
           \<and> newTree (Str name) attrib =
               (out, Inr (ElementTree (Element (Str tg) attrib (Some []) None [])))"
    by blast
qed

text \<open>
  Claim C8 says that for every name string and every attribute mapping
  \<^verbatim>\<open>newTree(name, attrib)\<close> returns a tree whose root has the tag
  \<^verbatim>\<open>fixXmlTag(name)\<close> and the given mapping, verbatim, as its attributes. On the empty
  name no tree is returned: the first statement of \<^verbatim>\<open>newTree\<close>,
  \<^verbatim>\<open>name = fixXmlTag(name)\<close>, prints its notice and raises \<^verbatim>\<open>IndexError\<close>.
\<close>

theorem newTree_empty_name_raises:
  "newTree (Str []) attrib = ([noticeReplacing [] []], Inl IndexError)"
proof -
  have "fixXmlTag (Str []) = ([noticeReplacing [] []], Inl IndexError)"
    by code_simp
  then show ?thesis by (simp add: newTree_def)
qed

theorem newTree_empty_name_raises_witness:
  "\<exists>out. newTree (Str []) [(Str (ustr ''k''), Str (ustr ''v''))] = (out, Inl IndexError)"
  using newTree_empty_name_raises [of "[(Str (ustr ''k''), Str (ustr ''v''))]"] by simp

text \<open>
  Claim C10. \<^verbatim>\<open>fixXmlTag\<close> is idempotent: on a string that is not empty it returns a
  string on which a second call returns the same string and prints nothing. So the two
  calls that \<^verbatim>\<open>newTree\<close> makes on the name of the root, one of its own and one in
  \<^verbatim>\<open>newNode\<close>, give the tag of a single call.
\<close>

theorem fixXmlTag_idempotent:
  assumes "s \<noteq> []"
  shows "\<exists>r. snd (fixXmlTag (Str s)) = Inr (Str r)
           \<and> fixXmlTag (Str r) = ([], Inr (Str r))
           \<and> (\<exists>out t. newTree (Str s) attrib = (out, Inr t) \<and> el_tag (getroot t) = Str r)"
proof -
  from assms obtain r where r: "snd (fixXmlTag (Str s)) = Inr (Str r)"
    using fixXmlTag_returns by blast
  then have fixed: "fixXmlTag (Str r) = ([], Inr (Str r))" by (rule fixXmlTag_fixed)
  obtain out where out: "fixXmlTag (Str s) = (out, Inr (Str r))"
    using r by (cases "fixXmlTag (Str s)") simp
  have "newTree (Str s) attrib = (out, Inr (ElementTree (Element (Str r) attrib (Some []) None [])))"
    unfolding newTree_Str out by simp
  then have "\<exists>out t. newTree (Str s) attrib = (out, Inr t) \<and> el_tag (getroot t) = Str r"
    by simp
  with r fixed show ?thesis by blast
qed

theorem fixXmlTag_idempotent_witness:
  "ustr ''xml a'' \<noteq> [] \<and>
   (\<exists>r. snd (fixXmlTag (Str (ustr ''xml a''))) = Inr (Str r) \<and> fixXmlTag (Str r) = ([], Inr (Str r)))"
  using fixXmlTag_idempotent [of "ustr ''xml a''" "[]"] by (auto simp: ustr_def)

section \<open>fixXmlTag and fixXmlText\<close>

text \<open>
  Claim C4 says that \<^verbatim>\<open>fixXmlTag(s)\<close> is the tag-specific rules applied to
  \<^verbatim>\<open>fixXmlText(s)\<close>, as the docstring of \<^verbatim>\<open>fixXmlTag\<close> has it. The body of
  \<^verbatim>\<open>fixXmlTag\<close> never applies the text sanitization. On a high surrogate followed by
  \<^verbatim>\<open>A\<close> the text sanitization replaces both characters by one \<^verbatim>\<open>?\<close>, which would
  give \<^verbatim>\<open>_.\<close>; \<^verbatim>\<open>fixXmlTag\<close> keeps the \<^verbatim>\<open>A\<close> and returns \<^verbatim>\<open>_.A\<close>. On
  \<^verbatim>\<open>"a\n"\<close> the rules would give \<^verbatim>\<open>a.\<close>; \<^verbatim>\<open>fixXmlTag\<close> returns the string
  as it is.
\<close>

theorem fixXmlTag_skips_text_rules:
  "snd (fixXmlTag (Str [0xD800, 0x41])) = Inr (Str (ustr ''_.A''))
   \<and> tagAfterText [0xD800, 0x41] = Str (ustr ''_.'')
   \<and> snd (fixXmlTag (Str [0x61, 0x0A])) = Inr (Str [0x61, 0x0A])
   \<and> tagAfterText [0x61, 0x0A] = Str (ustr ''a.'')"
  by (simp add: fixXmlTag_def tagAfterText_def tagRules_def fixXmlText_def rx_defs rx_m.simps
      legalTagChar_def letterOrUnderscore_def beginsWithXml_def Let_def)

theorem fixXmlTag_skips_text_rules_witness:
  "snd (fixXmlTag (Str [0xD800, 0x41])) \<noteq> Inr (tagAfterText [0xD800, 0x41])
   \<and> snd (fixXmlTag (Str [0x61, 0x0A])) \<noteq> Inr (tagAfterText [0x61, 0x0A])"
  using fixXmlTag_skips_text_rules by (simp add: ustr_def)

lemma rx_m_RE_XML_ILLEGAL:
  assumes "\<not> isSurrogate c" and "case cs of [] \<Rightarrow> True | d # _ \<Rightarrow> \<not> isSurrogate d"
  shows "rx_m RE_XML_ILLEGAL bos (c # cs) = (if in_ranges illegalChars c then [Suc 0] else [])"
proof (cases cs)
  case Nil
  with assms show ?thesis
    by (auto simp: RE_XML_ILLEGAL_def hiSurr_def loSurr_def in_ranges_def isSurrogate_def)
next
  case (Cons d ds)
  with assms show ?thesis
    by (auto simp: RE_XML_ILLEGAL_def hiSurr_def loSurr_def in_ranges_def isSurrogate_def)
qed

lemma re_sub_from_no_surrogate:
  "list_all (\<lambda>c. \<not> isSurrogate c) s \<Longrightarrow>
   re_sub_from RE_XML_ILLEGAL [q] bos s = map (\<lambda>c. if in_ranges illegalChars c then q else c) s"
proof (induction s arbitrary: bos)
  case Nil
  show ?case by (simp add: rx_defs)
next
  case (Cons c cs)
  then have c: "\<not> isSurrogate c" and cs: "list_all (\<lambda>c. \<not> isSurrogate c) cs" by simp_all
  have nxt: "case cs of [] \<Rightarrow> True | d # _ \<Rightarrow> \<not> isSurrogate d"
    using cs by (cases cs) simp_all
  show ?case
    unfolding re_sub_from.simps rx_m_RE_XML_ILLEGAL [OF c nxt]
    using Cons.IH [OF cs] by simp
qed

lemma fixXmlText_no_surrogate:
  "list_all (\<lambda>c. \<not> isSurrogate c) s \<Longrightarrow>
   fixXmlText (Str s) = Str (map (\<lambda>c. if in_ranges illegalChars c then 0x3F else c) s)"
  by (simp add: fixXmlText_def re_sub_def re_sub_from_no_surrogate ustr_def)

lemma period_after_text:
  "(\<lambda>c. if legalTagChar c then c else 0x2E) ((if in_ranges illegalChars c then 0x3F else c))
   = (if legalTagChar c then c else 0x2E)"
  by (auto simp: legalTagChar_def in_ranges_def illegalChars_def)

text \<open>
  Where the two do agree: on a string that is not empty, holds no surrogate code point and
  is not one of \<open>acceptedWithIllegal\<close>, \<^verbatim>\<open>fixXmlTag\<close> returns what the tag-specific
  rules give on the result of \<^verbatim>\<open>fixXmlText\<close>.
\<close>

lemma fixXmlTag_without_surrogates:
  assumes "s \<noteq> []" and "list_all (\<lambda>c. \<not> isSurrogate c) s" and "\<not> acceptedWithIllegal s"
  shows "snd (fixXmlTag (Str s)) = Inr (tagAfterText s)"
proof -
  let ?dot = "\<lambda>c. if legalTagChar c then c else 0x2E"
  let ?q = "\<lambda>c. if in_ranges illegalChars c then 0x3F else c"
  have mm: "map ?dot (map ?q s) = map ?dot s"
    using period_after_text by (simp add: comp_def)
  have spec: "tagAfterText s =
      Str (let m = map ?dot s
           in if (case m of [] \<Rightarrow> True | c # _ \<Rightarrow> \<not> letterOrUnderscore c) \<or> beginsWithXml m
              then 0x5F # m else m)"
    unfolding tagAfterText_def fixXmlText_no_surrogate [OF assms(2)] tagRules_def pyval.case mm
    by (rule refl)
  have m: "(if re_match notAllTagChars s then s else map ?dot s) = map ?dot s"
  proof (cases "re_match notAllTagChars s")
    case True
    with assms(3) have "list_all legalTagChar s" by (simp add: acceptedWithIllegal_def)
    then have "map ?dot s = s" by (simp add: list_all_iff map_idI)
    with True show ?thesis by simp
  next
    case False
    then show ?thesis by simp
  qed
  obtain c r where cr: "map ?dot s = c # r" using assms(1) by (cases s) auto
  show ?thesis
    unfolding fixXmlTag_Str m spec by (simp add: Let_def cr)
qed

section \<open>findPath\<close>

lemma py_split_not_Nil: "py_split sep s \<noteq> []"
  by (induction s) (auto split: list.split)

lemma py_join_split: "py_join sep (py_split sep s) = s"
proof (induction s)
  case Nil
  show ?case by simp
next
  case (Cons c cs)
  show ?case
  proof (cases "py_split sep cs")
    case Nil
    then show ?thesis using py_split_not_Nil by blast
  next
    case (Cons q qs)
    with Cons.IH show ?thesis by (cases qs) auto
  qed
qed

lemma py_split_no_sep: "p \<in> set (py_split sep s) \<Longrightarrow> sep \<notin> set p"
proof (induction s arbitrary: p)
  case Nil
  then show ?case by simp
next
  case (Cons c cs)
  then show ?case
    by (cases "py_split sep cs") (auto split: if_splits)
qed

lemma py_split_segment: "sep \<notin> set x \<Longrightarrow> py_split sep x = [x]"
  by (induction x) auto

lemma py_split_append_sep:
  "sep \<notin> set x \<Longrightarrow> py_split sep (x @ sep # s) = x # py_split sep s"
  by (induction x) auto

lemma py_split_join:
  "xs \<noteq> [] \<Longrightarrow> \<forall>p \<in> set xs. sep \<notin> set p \<Longrightarrow> py_split sep (py_join sep xs) = xs"
proof (induction sep xs rule: py_join.induct)
  case (1 sep)
  then show ?case by simp
next
  case (2 sep x)
  then show ?case by (simp add: py_split_segment)
next
  case (3 sep x y ys)
  then show ?case by (simp add: py_split_append_sep)
qed

lemma py_split_join_butlast:
  assumes "1 < length (py_split sep s)"
  shows "py_split sep (py_join sep (butlast (py_split sep s))) = butlast (py_split sep s)"
proof (rule py_split_join)
  show "butlast (py_split sep s) \<noteq> []"
    using assms by (cases "py_split sep s" rule: rev_cases) auto
  show "\<forall>p \<in> set (butlast (py_split sep s)). sep \<notin> set p"
    using py_split_no_sep by (auto dest: in_set_butlastD)
qed

lemma resolve_snoc:
  "resolve node (segs @ [seg]) =
     (case resolve node segs of None \<Rightarrow> None | Some n \<Rightarrow> firstChildTagged n seg)"
  by (induction segs arbitrary: node) (auto split: option.split)

lemma first_of_filter:
  "(case filter P xs of [] \<Rightarrow> None | e # _ \<Rightarrow> Some e) = List.find P xs"
  by (induction xs) simp_all

lemma pathSyntaxChars_set:
  "set pathSyntaxChars =
     {0x2F, 0x2A, 0x3A, 0x5B, 0x5D, 0x28, 0x29, 0x40, 0x3D, 0x21, 0x27, 0x22, 0x7B, 0x7D}"
  by (simp add: pathSyntaxChars_def ustr_def)

lemma plainTag_chars: "plainTag name \<Longrightarrow> d \<in> set name \<Longrightarrow> d \<notin> set pathSyntaxChars"
  by (cases name) (auto simp: plainTag_def list_all_iff)

lemma plainTag_first: "plainTag (c # r) \<Longrightarrow> c \<noteq> 0x2E"
  by (simp add: plainTag_def)

lemma plainTag_no_slash: "plainTag name \<Longrightarrow> slash \<notin> set name"
proof
  assume "plainTag name" and "slash \<in> set name"
  then have "slash \<notin> set pathSyntaxChars" by (rule plainTag_chars)
  then show False by (simp add: pathSyntaxChars_set slash_def)
qed

lemma plainTag_parseStep:
  assumes "plainTag name"
  shows "parseStep name = Some (ChildStep name)"
proof -
  have "name \<noteq> ustr ''*''"
  proof
    assume "name = ustr ''*''"
    then have "0x2A \<in> set name" by (simp add: ustr_def)
    with assms have "0x2A \<notin> set pathSyntaxChars" by (rule plainTag_chars)
    then show False by (simp add: pathSyntaxChars_set)
  qed
  moreover have "name \<noteq> ustr ''.''"
  proof
    assume "name = ustr ''.''"
    then have "name = 0x2E # []" by (simp add: ustr_def)
    with assms show False using plainTag_first by blast
  qed
  ultimately show ?thesis using assms by (simp add: parseStep_def)
qed

text \<open>On a plain tag name \<^verbatim>\<open>find\<close> is the first child with that tag.\<close>

lemma find_el_plain:
  assumes "plainTag name"
  shows "find_el other node name = Inr (firstChildTagged node name)"
proof -
  from assms obtain c r where name: "name = c # r" by (cases name) (simp_all add: plainTag_def)
  have "slash \<notin> set name" using assms by (rule plainTag_no_slash)
  then have split: "py_split slash name = [name]" and c: "c \<noteq> slash"
    using name by (simp_all add: py_split_segment)
  have "find_el other node name =
      Inr (case filter (\<lambda>e. el_tag e = Str name) (el_children node) of
             [] \<Rightarrow> None | e # _ \<Rightarrow> Some e)"
    unfolding find_el_def split using c plainTag_parseStep [OF assms]
    by (simp add: name)
  then show ?thesis by (simp only: first_of_filter firstChildTagged_def)
qed

lemma findPath_plain:
  "list_all plainTag (py_split bar path) \<Longrightarrow>
   findPath other root path = Inr (resolve root (py_split bar path))"
proof (induction other root path rule: findPath.induct)
  case (1 other root path)
  let ?p = "py_split bar path"
  have ne: "?p \<noteq> []" by (rule py_split_not_Nil)
  have plain_last: "plainTag (last ?p)"
    using "1.prems" ne by (simp add: list_all_iff)
  show ?case
  proof (cases "1 < length ?p")
    case True
    have bl: "py_split bar (py_join bar (butlast ?p)) = butlast ?p"
      by (rule py_split_join_butlast [OF True])
    have "list_all plainTag (butlast ?p)"
      using "1.prems" by (auto simp: list_all_iff dest: in_set_butlastD)
    then have "findPath other root (py_join bar (butlast ?p)) = Inr (resolve root (butlast ?p))"
      using "1.IH" [OF refl True] unfolding bl by simp
    then have "findPath other root path =
        Inr (case resolve root (butlast ?p) of
               None \<Rightarrow> None | Some n \<Rightarrow> firstChildTagged n (last ?p))"
      using True
      by (subst findPath.simps)
         (simp add: Let_def find_el_plain [OF plain_last] split: option.split)
    also have "\<dots> = Inr (resolve root (butlast ?p @ [last ?p]))"
      by (simp only: resolve_snoc)
    also have "butlast ?p @ [last ?p] = ?p"
      using ne by simp
    finally show ?thesis .
  next
    case False
    with ne obtain x where x: "?p = [x]"
      by (cases ?p) auto
    then have "plainTag x" using plain_last by simp
    then have "findPath other root path = Inr (firstChildTagged root x)"
      using False x by (subst findPath.simps) (simp add: Let_def find_el_plain)
    then show ?thesis using x by (simp split: option.split)
  qed
qed

lemmas find_defs = find_el_def parseStep_def plainTag_def pathSyntaxChars_def slash_def bar_def
  ustr_def isspace_def in_ranges_def firstChildTagged_def noOther_def exTree_def Let_def

text \<open>
  Claim C2 says that, for every path string, \<^verbatim>\<open>findPath\<close> resolves each segment as the
  first matching direct child of the node before it and never raises. \<^verbatim>\<open>find\<close> reads
  a segment as a path expression: on the path \<^verbatim>\<open>.\<close> the root itself is returned, on
  \<^verbatim>\<open>a/x\<close> a grandchild, and the segment \<^verbatim>\<open>/x\<close> raises \<^verbatim>\<open>SyntaxError\<close>. No child
  of the example has one of these tags.
\<close>

theorem findPath_path_syntax_counterexample:
  "findPath noOther exTree (ustr ''.'') = Inr (Some exTree)
   \<and> resolve exTree (py_split bar (ustr ''.'')) = None
   \<and> findPath noOther exTree (ustr ''a/x'') = Inr (Some (Element (Str (ustr ''x'')) [] None None []))
   \<and> resolve exTree (py_split bar (ustr ''a/x'')) = None
   \<and> findPath noOther exTree (ustr ''a|/x'') = Inl SyntaxError"
  by (simp add: findPath.simps find_defs)

text \<open>
  Claim C2, as amended. For every root element and every path string whose segments
  between the bars are plain tag names, \<^verbatim>\<open>findPath\<close> resolves the segments from the
  left, each as the first child with that tag of the node found for the segment before it.
  It returns the element so reached when every segment has a match, and \<^verbatim>\<open>None\<close> from
  the first segment that has none; it raises nothing.
\<close>

theorem findPath_resolves:
  "list_all plainTag (py_split bar path) \<Longrightarrow>
   findPath other root path = Inr (resolve root (py_split bar path))"
  by (rule findPath_plain)

theorem findPath_resolves_witness:
  "list_all plainTag (py_split bar (ustr ''a|x''))
   \<and> findPath noOther exTree (ustr ''a|x'') = Inr (Some (Element (Str (ustr ''x'')) [] None None []))
   \<and> list_all plainTag (py_split bar (ustr ''a|y|x''))
   \<and> findPath noOther exTree (ustr ''a|y|x'') = Inr None"
proof -
  have p1: "list_all plainTag (py_split bar (ustr ''a|x''))" by (simp add: find_defs)
  have p2: "list_all plainTag (py_split bar (ustr ''a|y|x''))" by (simp add: find_defs)
  have r1: "resolve exTree (py_split bar (ustr ''a|x'')) = Some (Element (Str (ustr ''x'')) [] None None [])"
    by (simp add: find_defs)
  have r2: "resolve exTree (py_split bar (ustr ''a|y|x'')) = None"
    by (simp add: find_defs)
  show ?thesis
    using p1 p2 findPath_resolves [OF p1, of noOther exTree] findPath_resolves [OF p2, of noOther exTree]
    by (simp only: r1 r2)
qed

section \<open>prettify\<close>

lemma skeleton_setTail: "skeleton_of (setTail f node) = skeleton_of node"
  by (cases node) (simp add: setTail_def)

lemma skeleton_onLastChild:
  "(\<And>x. skeleton_of (g x) = skeleton_of x) \<Longrightarrow>
   map skeleton_of (onLastChild g xs) = map skeleton_of xs"
  by (cases xs rule: rev_cases) (simp_all add: onLastChild_def)

lemma skeleton_prettifyNode: "skeleton_of (prettifyNode node tabs) = skeleton_of node"
proof (induction node arbitrary: tabs)
  case (Element tg at tx ta kids)
  have kids: "map skeleton_of (map (\<lambda>child. prettifyNode child t) kids) = map skeleton_of kids"
    for t
    using Element.IH by simp
  show ?case
    by (simp add: Let_def skeleton_onLastChild skeleton_setTail kids del: map_map)
qed

lemma onLastChild_Nil: "onLastChild f [] = []"
  by (simp add: onLastChild_def)

lemma onLastChild_single: "onLastChild f [x] = [f x]"
  by (simp add: onLastChild_def)

lemma onLastChild_Cons2: "onLastChild f (x # y # ys) = x # onLastChild f (y # ys)"
  by (simp add: onLastChild_def)

lemma onLastChild_twice: "onLastChild f (onLastChild g xs) = onLastChild (\<lambda>x. f (g x)) xs"
  by (cases xs rule: rev_cases) (simp_all add: onLastChild_def)

lemma setTail_twice: "setTail f (setTail g node) = setTail (\<lambda>t. f (g t)) node"
  by (simp add: setTail_def tailStr_def)

lemma spaces_add: "spaces (m + n) = spaces m @ spaces n"
  by (simp add: spaces_def replicate_add)

lemma drop_last_two: "take (length (a @ spaces 2) - 2) (a @ spaces 2) = a"
  by (simp add: spaces_def)

lemma lastFix_cut:
  assumes "1 \<le> d"
  shows "lastFix d (y @ spaces (2 * d)) =
     (if d = 1 then replace (linesep @ linesep) linesep (y @ spaces (2 * (d - 1)))
      else y @ spaces (2 * (d - 1)))"
proof -
  from assms obtain e where d: "d = Suc e" by (cases d) auto
  have "spaces (2 * d) = spaces (2 * (d - 1)) @ spaces 2"
    unfolding d spaces_add [symmetric] by simp
  then have eq: "y @ spaces (2 * d) = (y @ spaces (2 * (d - 1))) @ spaces 2" by simp
  have "take (length (y @ spaces (2 * d)) - 2) (y @ spaces (2 * d)) = y @ spaces (2 * (d - 1))"
    unfolding eq by (rule drop_last_two)
  then show ?thesis by (simp only: lastFix_def)
qed

lemma layout_last:
  assumes "1 \<le> d"
  shows "layout d True c = setTail (lastFix d) (layout d False c)"
proof (cases c)
  case (Element tg at tx ta kids)
  define X where "X = (case ta of None \<Rightarrow> [] | Some t \<Rightarrow> strip t)
       @ (if d = 1 \<and> \<not> isComment c then linesep @ linesep else linesep)"
  define TX where "TX = (if kids = [] then (case tx of None \<Rightarrow> [] | Some t \<Rightarrow> t)
       else strip (case tx of None \<Rightarrow> [] | Some t \<Rightarrow> t) @ linesep @ spaces (2 * (d + 1)))"
  have F: "layout d False c = Element tg at (Some TX) (Some (X @ spaces (2 * d))) (layoutKids (d + 1) kids)"
    by (simp add: Element Let_def X_def TX_def)
  have T: "layout d True c = Element tg at (Some TX)
      (Some (if d = 1 then replace (linesep @ linesep) linesep (X @ spaces (2 * (d - 1)))
             else X @ spaces (2 * (d - 1))))
      (layoutKids (d + 1) kids)"
    by (simp add: Element Let_def X_def TX_def)
  have S: "setTail f (Element tg at (Some TX) (Some Y) K) = Element tg at (Some TX) (Some (f Y)) K"
    for f Y K
    by (simp add: setTail_def tailStr_def)
  show ?thesis
    unfolding F T S lastFix_cut [OF assms] by (rule refl)
qed

lemma layoutKids_onLastChild:
  "1 \<le> d \<Longrightarrow> layoutKids d kids = onLastChild (setTail (lastFix d)) (map (layout d False) kids)"
proof (induction kids rule: induct_list012)
  case 1
  show ?case by (simp add: onLastChild_Nil)
next
  case (2 c)
  then show ?case by (simp add: onLastChild_single layout_last)
next
  case (3 c c' cs)
  then show ?case by (simp add: onLastChild_Cons2)
qed

lemma layoutKids_root:
  "onLastChild (setTail (replace (linesep @ linesep) linesep))
     (onLastChild (setTail (\<lambda>t. take (length t - 2) t)) (map (layout (Suc 0) False) kids))
   = layoutKids (Suc 0) kids"
proof -
  have fx: "lastFix (Suc 0) = (\<lambda>t. replace (linesep @ linesep) linesep (take (length t - 2) t))"
    by (rule ext) (simp add: lastFix_def)
  have lk: "layoutKids (Suc 0) kids =
      onLastChild (setTail (lastFix (Suc 0))) (map (layout (Suc 0) False) kids)"
    by (rule layoutKids_onLastChild) simp
  show ?thesis
    unfolding lk fx by (simp add: onLastChild_twice setTail_twice)
qed

lemma layoutKids_inner:
  assumes "0 < tabs"
  shows "onLastChild (setTail (\<lambda>t. take (length t - 2) t)) (map (layout (Suc tabs) False) kids)
         = layoutKids (Suc tabs) kids"
proof -
  have fx: "lastFix (Suc tabs) = (\<lambda>t. take (length t - 2) t)"
    using assms by (intro ext) (simp add: lastFix_def)
  have lk: "layoutKids (Suc tabs) kids =
      onLastChild (setTail (lastFix (Suc tabs))) (map (layout (Suc tabs) False) kids)"
    by (rule layoutKids_onLastChild) simp
  show ?thesis
    unfolding lk fx by (rule refl)
qed

lemma prettifyNode_layout: "prettifyNode node tabs = layout tabs False node"
proof (induction node arbitrary: tabs)
  case (Element tg at tx ta kids)
  have visited: "map (\<lambda>child. prettifyNode child t) kids = map (layout t False) kids" for t
    using Element.IH by simp
  show ?case
  proof (cases "kids = []")
    case True
    then show ?thesis by (simp add: Let_def)
  next
    case False
    show ?thesis
    proof (cases "tabs = 0")
      case True
      have s2: "spaces (Suc (Suc 0)) = spaces 2" by (simp add: numeral_2_eq_2)
      from True False show ?thesis
        by (simp add: Let_def visited layoutKids_root spaces_add [symmetric] s2)
    next
      case nz: False
      with False show ?thesis
        by (simp add: Let_def visited layoutKids_inner spaces_add [symmetric])
    qed
  qed
qed

text \<open>
  Claim C6 says that a blank line separates two children of the root except before a
  comment node. In the example the second child is a comment, and the tail of the first
  child, which stands between the two, holds the doubled line break: the blank line is left
  out after a comment, not before one.
\<close>

theorem blank_line_before_comment_counterexample:
  "isComment (el_children exTree ! 1) \<and>
   tailStr (el_children (prettifyNode exTree 0) ! 0) = linesep @ linesep @ spaces 2 \<and>
   tailStr (el_children (prettifyNode exTree 0) ! 1) = linesep @ spaces 2 \<and>
   tailStr (el_children (prettifyNode exTree 0) ! 0) \<noteq> firstLevelTailSpec (el_children exTree) 0"
  by code_simp

text \<open>
  Claim C6, as amended. \<^verbatim>\<open>prettify\<close> leaves the tree in the layout described at
  \<open>layout\<close>: two blanks of indentation for each level of nesting; after a child of the root
  a blank line unless that child is itself a comment node, and none after the last child
  of the root; the text of a node with children and every tail are stripped before the
  line break and the indentation are appended. It returns the serialization of that tree.
\<close>

theorem prettify_layout:
  "prettifyNode node tabs = layout tabs False node
   \<and> rootOf (fst (prettify tostring tree)) = layout 0 False (rootOf tree)
   \<and> snd (prettify tostring tree) = tostring (layout 0 False (rootOf tree))"
  by (cases tree) (simp_all add: prettifyNode_layout prettify_def rootOf_def Let_def)

theorem prettify_layout_witness:
  "prettifyNode exTree 0 =
     Element (Str (ustr ''r'')) [] (Some (linesep @ spaces 2)) (Some linesep)
       [Element (Str (ustr ''a'')) [] (Some (linesep @ spaces 4)) (Some (linesep @ linesep @ spaces 2))
          [Element (Str (ustr ''x'')) [] (Some []) (Some (linesep @ spaces 2)) []],
        Element (FuncV (ustr ''Comment'')) [] (Some (ustr ''note'')) (Some (linesep @ spaces 2)) [],
        Element (Str (ustr ''b'')) [] (Some []) (Some linesep) []]"
proof -
  have "layout 0 False exTree =
     Element (Str (ustr ''r'')) [] (Some (linesep @ spaces 2)) (Some linesep)
       [Element (Str (ustr ''a'')) [] (Some (linesep @ spaces 4)) (Some (linesep @ linesep @ spaces 2))
          [Element (Str (ustr ''x'')) [] (Some []) (Some (linesep @ spaces 2)) []],
        Element (FuncV (ustr ''Comment'')) [] (Some (ustr ''note'')) (Some (linesep @ spaces 2)) [],
        Element (Str (ustr ''b'')) [] (Some []) (Some linesep) []]"
    by code_simp
  then show ?thesis using prettify_layout [of exTree 0 id "NodeArg exTree"] by simp
qed

text \<open>
  Claim C7. \<^verbatim>\<open>prettify\<close> changes the \<^verbatim>\<open>text\<close> and the \<^verbatim>\<open>tail\<close> of nodes only: the
  tag, the attribute mapping and the sequence of children of every node of the tree are
  after the call what they were before, and the value returned is the serialization of
  the tree as reformatted.
\<close>

theorem prettify_frame:
  "skeleton_of (prettifyNode node tabs) = skeleton_of node
   \<and> skeleton_of (rootOf (fst (prettify tostring tree))) = skeleton_of (rootOf tree)
   \<and> snd (prettify tostring tree) = tostring (rootOf (fst (prettify tostring tree)))"
  by (cases tree) (simp_all add: skeleton_prettifyNode prettify_def rootOf_def Let_def)

theorem prettify_frame_witness:
  "skeleton_of (prettifyNode exTree 0) = skeleton_of exTree
   \<and> snd (prettify el_tail (TreeArg (ElementTree exTree))) = Some linesep"
proof -
  have "el_tail (layout 0 False exTree) = Some linesep" by code_simp
  then show ?thesis
    using prettify_frame [of exTree 0 el_tail "TreeArg (ElementTree exTree)"]
    by (simp add: prettify_def prettifyNode_layout Let_def)
qed

end
